theory Spec2Isabelle
  imports Main
begin

section \<open>Python strings\<close>

text \<open>
  A Python \<open>str\<close> is a sequence of code points. The model is \<open>string\<close>, read as the
  sequence of code points below 256 (one \<open>char\<close> per code point, not a byte of an
  encoding): on this range the character classes of \<open>str.lower\<close>, \<open>str.isdigit\<close>,
  \<open>str.strip\<close>, \<open>str.splitlines\<close> and of the pattern \<open>\W\<close> are written out as Python
  has them. Code points from 256 on are outside the model.
\<close>

definition ord :: "char \<Rightarrow> nat" where
  "ord c = of_char c"

text \<open>\<open>str.lower\<close>: the upper-case letters A-Z and the accented capitals 192-222
  (without the multiplication sign 215) move up by 32.\<close>

definition lower_char :: "char \<Rightarrow> char" where
  "lower_char c =
     (if (65 \<le> ord c \<and> ord c \<le> 90) \<or> (192 \<le> ord c \<and> ord c \<le> 222 \<and> ord c \<noteq> 215)
      then char_of (ord c + 32) else c)"

definition lower :: "string \<Rightarrow> string" where
  "lower s = map lower_char s"

text \<open>\<open>str.isalnum\<close>, one character.\<close>

definition isalnum :: "char \<Rightarrow> bool" where
  "isalnum c =
     ((48 \<le> ord c \<and> ord c \<le> 57) \<or> (65 \<le> ord c \<and> ord c \<le> 90) \<or>
      (97 \<le> ord c \<and> ord c \<le> 122) \<or> ord c = 170 \<or> (178 \<le> ord c \<and> ord c \<le> 179) \<or>
      ord c = 181 \<or> (185 \<le> ord c \<and> ord c \<le> 186) \<or> (188 \<le> ord c \<and> ord c \<le> 190) \<or>
      (192 \<le> ord c \<and> ord c \<le> 214) \<or> (216 \<le> ord c \<and> ord c \<le> 246) \<or> 248 \<le> ord c)"

text \<open>The class \<open>\w\<close> of a \<open>str\<close> pattern: alphanumeric or the underscore.\<close>

definition word_char :: "char \<Rightarrow> bool" where
  "word_char c = (isalnum c \<or> c = CHR ''_'')"

text \<open>\<open>str.isdigit\<close>, one character: 0-9 and the superscripts 1, 2, 3.\<close>

definition isdigit :: "char \<Rightarrow> bool" where
  "isdigit c =
     ((48 \<le> ord c \<and> ord c \<le> 57) \<or> (178 \<le> ord c \<and> ord c \<le> 179) \<or> ord c = 185)"

text \<open>\<open>str.isspace\<close>, one character: what \<open>str.strip()\<close> removes.\<close>

definition isspace :: "char \<Rightarrow> bool" where
  "isspace c =
     ((9 \<le> ord c \<and> ord c \<le> 13) \<or> (28 \<le> ord c \<and> ord c \<le> 32) \<or> ord c = 133 \<or> ord c = 160)"

text \<open>\<open>s.strip(chars)\<close> removes the characters of a class at both ends.\<close>

definition strip_where :: "(char \<Rightarrow> bool) \<Rightarrow> string \<Rightarrow> string" where
  "strip_where P s = rev (dropWhile P (rev (dropWhile P s)))"

definition strip :: "string \<Rightarrow> string" where
  "strip s = strip_where isspace s"

text \<open>\<open>s.replace(a, b)\<close> for one-character \<open>a\<close> and \<open>b\<close>.\<close>

definition replace_char :: "char \<Rightarrow> char \<Rightarrow> string \<Rightarrow> string" where
  "replace_char a b s = map (\<lambda>c. if c = a then b else c) s"

text \<open>\<open>re.sub(r'\W+', '_', s)\<close>: every maximal run of characters outside \<open>\w\<close>
  becomes one underscore.\<close>

function sub_nonword :: "string \<Rightarrow> string" where
  "sub_nonword [] = []"
| "sub_nonword (c # cs) =
     (if word_char c then c # sub_nonword cs
      else CHR ''_'' # sub_nonword (dropWhile (\<lambda>d. \<not> word_char d) cs))"
  by pat_completeness auto
termination
  by (relation "measure length") (auto simp: le_imp_less_Suc length_dropWhile_le)

section \<open>The identifier sanitizer (utils.py)\<close>

text \<open>The fallback name \<open>f"unnamed_{str(category_for_fallback).lower().replace(' ', '_')}"\<close>.\<close>

definition unnamed :: "string \<Rightarrow> string" where
  "unnamed category = ''unnamed_'' @ replace_char CHR '' '' CHR ''_'' (lower category)"

text \<open>\<open>sanitize_identifier_for_method_name(raw_identifier_str, category_for_fallback)\<close>.
  The fallback name is not empty, so \<open>sane_name[0]\<close> is always read inside the string.\<close>

definition sanitize_identifier_for_method_name :: "string \<Rightarrow> string \<Rightarrow> string" where
  "sanitize_identifier_for_method_name raw_identifier_str category_for_fallback =
     (if raw_identifier_str = [] then unnamed category_for_fallback
      else
        let sane_name = sub_nonword (lower raw_identifier_str);
            sane_name = strip_where (\<lambda>c. c = CHR ''_'') sane_name;
            sane_name = (if sane_name = [] then unnamed category_for_fallback else sane_name)
        in (case sane_name of
              [] \<Rightarrow> sane_name
            | c # _ \<Rightarrow> if isdigit c then CHR ''_'' # sane_name else sane_name))"

text \<open>The call with the default argument \<open>category_for_fallback="element"\<close>.\<close>

definition sanitize :: "string \<Rightarrow> string" where
  "sanitize s = sanitize_identifier_for_method_name s ''element''"


subsection \<open>The shape the specification asks of a name\<close>






section \<open>The oracle helpers (ollama\_utils.py)\<close>

text \<open>A decoded JSON value, as \<open>response.json()\<close> and \<open>json.loads\<close> return it. An object is
  the association list of its members, read with \<open>map_of\<close> as the \<open>dict\<close> is read with
  \<open>get\<close>. Numbers are never inspected by the code modelled here.\<close>

datatype json =
    JNull
  | JBool bool
  | JNum int
  | JStr string
  | JArr "json list"
  | JObj "(string \<times> json) list"

text \<open>What one \<open>requests.post(endpoint, json=payload, timeout=120)\<close> followed by
  \<open>raise_for_status()\<close> and \<open>response.json()\<close> can do: raise \<open>Timeout\<close>, raise
  \<open>HTTPError\<close> (status and text), raise another \<open>RequestException\<close>, fail to decode
  the body, or decode it.\<close>

datatype http_result =
    Timeout
  | HTTPError nat string
  | NetworkError
  | NotJson string
  | Body json

text \<open>The exceptions that leave the helpers: none of the \<open>except\<close> clauses of
  \<open>query_ollama\<close> names \<open>AttributeError\<close>, and \<open>generate_json_with_ollama\<close> catches
  \<open>JSONDecodeError\<close> only, so that a \<open>RecursionError\<close> of \<open>json.loads\<close> on a deeply
  nested text leaves it.\<close>

datatype py_exception = AttributeError | RecursionError

text \<open>\<open>d.get(k, default)\<close>.\<close>

definition dict_get :: "(string \<times> json) list \<Rightarrow> string \<Rightarrow> json \<Rightarrow> json" where
  "dict_get d k dflt = (case map_of d k of None \<Rightarrow> dflt | Some v \<Rightarrow> v)"

text \<open>\<open>query_ollama(prompt)\<close>. The exchange with the endpoint is the parameter \<open>post\<close>.
  \<open>Inr None\<close> is the return value \<open>None\<close>, \<open>Inl\<close> an exception that reaches the caller:
  \<open>result.get\<close> on a body that is no object and \<open>model_response.strip()\<close> on a member
  that is no string raise \<open>AttributeError\<close>.\<close>

definition query_ollama :: "(string \<Rightarrow> http_result) \<Rightarrow> string \<Rightarrow> py_exception + string option" where
  "query_ollama post prompt =
     (case post prompt of
        Timeout \<Rightarrow> Inr None
      | HTTPError status text \<Rightarrow> Inr None
      | NetworkError \<Rightarrow> Inr None
      | NotJson text \<Rightarrow> Inr None
      | Body result \<Rightarrow>
          (case result of
             JObj d \<Rightarrow>
               (case dict_get d ''response'' (JStr '''') of
                  JStr model_response \<Rightarrow>
                    if strip model_response = [] then Inr None else Inr (Some model_response)
                | _ \<Rightarrow> Inl AttributeError)
           | _ \<Rightarrow> Inl AttributeError))"





subsection \<open>One attempt, as the specification tells them apart\<close>




text \<open>The exchanges whose decoded body, if any, is an object with no \<open>response\<close> member
  or a string there.\<close>

definition well_shaped :: "http_result \<Rightarrow> bool" where
  "well_shaped r =
     (case r of
        Body (JObj d) \<Rightarrow>
          (case map_of d ''response'' of None \<Rightarrow> True | Some (JStr text) \<Rightarrow> True | Some _ \<Rightarrow> False)
      | Body _ \<Rightarrow> False
      | _ \<Rightarrow> True)"

section \<open>Validation of the locator list\<close>

text \<open>One entry of the list the oracle returns: a JSON object, kept as the association
  list of its members, or a value that is no object. The members read here
  (\<open>identifier\<close>, \<open>category\<close>, \<open>xpath\<close>, \<open>css_selector\<close>) are strings, as the prompt asks
  for them.\<close>

type_synonym locator = "(string \<times> string) list"

datatype entry = Dict locator | NotDict

text \<open>\<open>locator.get(k)\<close> as the tests \<open>not locator.get(k)\<close> read it: an absent member and
  an empty string are both false, so both are the empty string here.\<close>

definition get_text :: "locator \<Rightarrow> string \<Rightarrow> string" where
  "get_text locator k = (case map_of locator k of None \<Rightarrow> [] | Some v \<Rightarrow> v)"

text \<open>The loop "Validate and clean locators" of \<open>extract_locators\<close>
  (locator\_extractor\_refactored.py). It has no \<open>isinstance\<close> test: on an entry that is
  no object \<open>locator.get\<close> raises \<open>AttributeError\<close>, which the function logs and raises
  again.\<close>

fun clean_locators :: "entry list \<Rightarrow> string set \<Rightarrow> locator list \<Rightarrow> py_exception + locator list" where
  "clean_locators [] seen unique_locators = Inr unique_locators"
| "clean_locators (NotDict # locators) seen unique_locators = Inl AttributeError"
| "clean_locators (Dict locator # locators) seen unique_locators =
     (let identifier = get_text locator ''identifier'' in
      if identifier = [] \<or> identifier \<in> seen then clean_locators locators seen unique_locators
      else if get_text locator ''xpath'' = [] \<or> get_text locator ''css_selector'' = []
        then clean_locators locators seen unique_locators
      else clean_locators locators (insert identifier seen) (unique_locators @ [locator]))"

definition extract_locators_clean :: "entry list \<Rightarrow> py_exception + locator list" where
  "extract_locators_clean locators = clean_locators locators {} []"

text \<open>The same loop of \<open>generate_pom\<close> (Backupcodes/pom\_generator\_backup.py): entries
  that are no objects are skipped, and an entry is dropped only when \<open>xpath\<close> and
  \<open>css_selector\<close> are both empty.\<close>

fun clean_locators_pom :: "entry list \<Rightarrow> string set \<Rightarrow> locator list \<Rightarrow> locator list" where
  "clean_locators_pom [] seen_raw_identifiers unique_locators = unique_locators"
| "clean_locators_pom (NotDict # locators) seen_raw_identifiers unique_locators =
     clean_locators_pom locators seen_raw_identifiers unique_locators"
| "clean_locators_pom (Dict locator_item # locators) seen_raw_identifiers unique_locators =
     (let raw_identifier = get_text locator_item ''identifier'' in
      if raw_identifier = [] \<or> raw_identifier \<in> seen_raw_identifiers
        then clean_locators_pom locators seen_raw_identifiers unique_locators
      else if get_text locator_item ''xpath'' = [] \<and> get_text locator_item ''css_selector'' = []
        then clean_locators_pom locators seen_raw_identifiers unique_locators
      else clean_locators_pom locators (insert raw_identifier seen_raw_identifiers)
             (unique_locators @ [locator_item]))"

definition generate_pom_clean :: "entry list \<Rightarrow> locator list" where
  "generate_pom_clean locators = clean_locators_pom locators {} []"


subsection \<open>First seen wins, in the words of the specification\<close>

definition identifier_of :: "locator \<Rightarrow> string" where
  "identifier_of l = get_text l ''identifier''"

definition usable_both :: "locator \<Rightarrow> bool" where
  "usable_both l =
     (identifier_of l \<noteq> [] \<and> get_text l ''xpath'' \<noteq> [] \<and> get_text l ''css_selector'' \<noteq> [])"

definition usable_any :: "locator \<Rightarrow> bool" where
  "usable_any l =
     (identifier_of l \<noteq> [] \<and> (get_text l ''xpath'' \<noteq> [] \<or> get_text l ''css_selector'' \<noteq> []))"

text \<open>Of the records with one identifier only the first is kept; the order is kept.\<close>

fun first_seen :: "locator list \<Rightarrow> locator list" where
  "first_seen [] = []"
| "first_seen (l # ls) = l # first_seen (filter (\<lambda>m. identifier_of m \<noteq> identifier_of l) ls)"

fun dicts :: "entry list \<Rightarrow> locator list" where
  "dicts [] = []"
| "dicts (NotDict # es) = dicts es"
| "dicts (Dict l # es) = l # dicts es"

fun is_dict :: "entry \<Rightarrow> bool" where
  "is_dict (Dict l) = True"
| "is_dict NotDict = False"


section \<open>Facts about the string operations\<close>

lemma ord_char_of: "n < 256 \<Longrightarrow> ord (char_of n) = n"
  by (simp add: ord_def)

lemma lower_char_idem: "lower_char (lower_char c) = lower_char c"
  by (auto simp: lower_char_def ord_char_of)

lemma lower_idem: "lower (lower s) = lower s"
  by (simp add: lower_def lower_char_idem)

lemma lower_char_us: "lower_char CHR ''_'' = CHR ''_''"
  by (simp add: lower_char_def ord_def)

lemma word_char_us: "word_char CHR ''_''"
  by (simp add: word_char_def)

lemma sub_nonword_word: "list_all word_char (sub_nonword s)"
  by (induction s rule: sub_nonword.induct) (simp_all add: word_char_us)

lemma sub_nonword_id: "list_all word_char s \<Longrightarrow> sub_nonword s = s"
  by (induction s) simp_all

lemma set_dropWhile_subset: "set (dropWhile P xs) \<subseteq> set xs"
  by (induction xs) auto

lemma set_sub_nonword: "set (sub_nonword s) \<subseteq> insert CHR ''_'' (set s)"
proof (induction s rule: sub_nonword.induct)
  case 1
  then show ?case by simp
next
  case (2 c cs)
  show ?case
  proof (cases "word_char c")
    case True
    with 2 show ?thesis by auto
  next
    case False
    with 2 have "set (sub_nonword (dropWhile (\<lambda>d. \<not> word_char d) cs))
        \<subseteq> insert CHR ''_'' (set (dropWhile (\<lambda>d. \<not> word_char d) cs))" by simp
    also have "\<dots> \<subseteq> insert CHR ''_'' (set cs)"
      using set_dropWhile_subset [of "\<lambda>d. \<not> word_char d" cs] by auto
    finally show ?thesis using False by auto
  qed
qed

lemma set_strip_where: "set (strip_where P s) \<subseteq> set s"
proof -
  have "set (strip_where P s) = set (dropWhile P (rev (dropWhile P s)))"
    by (simp add: strip_where_def)
  also have "\<dots> \<subseteq> set (rev (dropWhile P s))" by (rule set_dropWhile_subset)
  also have "\<dots> \<subseteq> set s" using set_dropWhile_subset [of P s] by simp
  finally show ?thesis .
qed

lemma strip_where_id:
  assumes "s \<noteq> []" "\<not> P (hd s)" "\<not> P (last s)"
  shows "strip_where P s = s"
proof -
  from assms have "dropWhile P s = s" by (cases s) simp_all
  moreover from assms have "dropWhile P (rev s) = rev s"
    by (cases "rev s") (simp_all add: hd_rev)
  ultimately show ?thesis by (simp add: strip_where_def)
qed

lemma strip_where_last:
  assumes "strip_where P s \<noteq> []"
  shows "\<not> P (last (strip_where P s))"
proof -
  let ?d = "dropWhile P (rev (dropWhile P s))"
  from assms have ne: "?d \<noteq> []" by (simp add: strip_where_def)
  then have "\<not> P (hd ?d)" by (rule hd_dropWhile)
  moreover have "last (strip_where P s) = hd ?d"
    using ne by (simp add: strip_where_def last_rev)
  ultimately show ?thesis by simp
qed

lemma dropWhile_snoc_keep: "\<not> P y \<Longrightarrow> dropWhile P (xs @ [y]) = dropWhile P xs @ [y]"
  by (induction xs) simp_all

lemma strip_where_hd:
  assumes "strip_where P s \<noteq> []"
  shows "\<not> P (hd (strip_where P s))"
proof -
  let ?ys = "dropWhile P s"
  from assms have ne: "?ys \<noteq> []" by (auto simp: strip_where_def dest: set_dropWhileD)
  then have nP: "\<not> P (hd ?ys)" by (rule hd_dropWhile)
  from ne obtain y zs where ys: "?ys = y # zs" by (cases ?ys) auto
  with nP have "\<not> P y" by simp
  then have "dropWhile P (rev ?ys) = dropWhile P (rev zs) @ [y]"
    by (simp add: ys dropWhile_snoc_keep)
  then have "strip_where P s = y # rev (dropWhile P (rev zs))"
    by (simp add: strip_where_def)
  with \<open>\<not> P y\<close> show ?thesis by simp
qed

lemma strip_where_drop: "P a \<Longrightarrow> strip_where P (a # s) = strip_where P s"
  by (simp add: strip_where_def)

lemma core_word: "list_all word_char (strip_where P (sub_nonword s))"
  using set_strip_where [of P "sub_nonword s"] sub_nonword_word [of s]
  by (auto simp: list_all_iff)

lemma core_lower: "lower (strip_where P (sub_nonword (lower s))) = strip_where P (sub_nonword (lower s))"
proof -
  have "\<forall>c \<in> set (strip_where P (sub_nonword (lower s))). lower_char c = c"
    using set_strip_where [of P "sub_nonword (lower s)"] set_sub_nonword [of "lower s"]
    by (auto simp: lower_def lower_char_idem lower_char_us)
  then show ?thesis by (simp add: lower_def map_idI)
qed

lemma sanitize_fixed:
  assumes ne: "t \<noteq> []" and w: "list_all word_char t" and l: "lower t = t"
    and h: "hd t \<noteq> CHR ''_''" and e: "last t \<noteq> CHR ''_''"
  shows "sanitize_identifier_for_method_name (if isdigit (hd t) then CHR ''_'' # t else t) category
       = (if isdigit (hd t) then CHR ''_'' # t else t)"
proof -
  from ne obtain c cs where t: "t = c # cs" by (cases t) auto
  have s: "strip_where (\<lambda>c. c = CHR ''_'') t = t"
    using ne h e by (intro strip_where_id) simp_all
  show ?thesis
  proof (cases "isdigit (hd t)")
    case True
    have "lower (CHR ''_'' # t) = CHR ''_'' # t" using l by (simp add: lower_def lower_char_us)
    moreover have "sub_nonword (CHR ''_'' # t) = CHR ''_'' # t"
      using w by (intro sub_nonword_id) (simp add: word_char_us)
    moreover have "strip_where (\<lambda>c. c = CHR ''_'') (CHR ''_'' # t) = t"
      using s by (simp add: strip_where_drop)
    ultimately show ?thesis using True t
      by (simp add: sanitize_identifier_for_method_name_def)
  next
    case False
    have "sub_nonword t = t" using w by (rule sub_nonword_id)
    then show ?thesis using False t l s
      by (simp add: sanitize_identifier_for_method_name_def)
  qed
qed

lemma sanitize_unnamed_element: "sanitize ''unnamed_element'' = ''unnamed_element''"
  by code_simp





















section \<open>Properties of the sanitizer\<close>

text \<open>
  Claim C2. Sanitizing is idempotent: for every input string \<open>s\<close>, sanitizing the
  sanitized name again, with the default fallback category, returns the same name.
\<close>

theorem sanitize_idempotent: "sanitize (sanitize s) = sanitize s"
proof -
  let ?t = "strip_where (\<lambda>c. c = CHR ''_'') (sub_nonword (lower s))"
  have u: "unnamed ''element'' = ''unnamed_element''" by code_simp
  show ?thesis
  proof (cases "s = [] \<or> ?t = []")
    case True
    then have "sanitize s = ''unnamed_element''"
      by (auto simp: sanitize_def sanitize_identifier_for_method_name_def u isdigit_def ord_def)
    then show ?thesis by (simp add: sanitize_unnamed_element)
  next
    case False
    then have ne: "?t \<noteq> []" by simp
    have r: "sanitize s = (if isdigit (hd ?t) then CHR ''_'' # ?t else ?t)"
      using False by (cases ?t) (simp_all add: sanitize_def sanitize_identifier_for_method_name_def)
    have "sanitize_identifier_for_method_name (if isdigit (hd ?t) then CHR ''_'' # ?t else ?t) ''element''
        = (if isdigit (hd ?t) then CHR ''_'' # ?t else ?t)"
      using ne core_word core_lower strip_where_hd [of "\<lambda>c. c = CHR ''_''", OF ne]
        strip_where_last [of "\<lambda>c. c = CHR ''_''", OF ne]
      by (intro sanitize_fixed) simp_all
    then show ?thesis using r by (simp add: sanitize_def)
  qed
qed

theorem sanitize_idempotent_witness:
  "sanitize (sanitize ''2 Fast 4 U!'') = ''_2_fast_4_u'' \<and> sanitize ''2 Fast 4 U!'' = ''_2_fast_4_u''"
proof -
  have "sanitize ''2 Fast 4 U!'' = ''_2_fast_4_u''" by code_simp
  with sanitize_idempotent [of "''2 Fast 4 U!''"] show ?thesis by simp
qed




section \<open>Properties of the oracle helpers\<close>

lemma query_failure:
  "post prompt = Timeout \<or> (\<exists>status text. post prompt = HTTPError status text) \<or>
   post prompt = NetworkError \<or> (\<exists>text. post prompt = NotJson text) \<Longrightarrow>
   query_ollama post prompt = Inr None"
  by (auto simp: query_ollama_def)

lemma query_absent:
  "post prompt = Body (JObj d) \<Longrightarrow> map_of d ''response'' = None \<Longrightarrow>
   query_ollama post prompt = Inr None"
  by (simp add: query_ollama_def dict_get_def strip_def strip_where_def)

lemma query_text:
  "post prompt = Body (JObj d) \<Longrightarrow> map_of d ''response'' = Some (JStr text) \<Longrightarrow>
   query_ollama post prompt = Inr (if strip text = [] then None else Some text)"
  by (simp add: query_ollama_def dict_get_def)

lemma query_some:
  assumes "query_ollama post prompt = Inr (Some text)"
  shows "strip text \<noteq> [] \<and> (\<exists>d. post prompt = Body (JObj d) \<and> map_of d ''response'' = Some (JStr text))"
proof (cases "post prompt")
  case (Body result)
  show ?thesis
  proof (cases result)
    case (JObj d)
    show ?thesis
    proof (cases "map_of d ''response''")
      case None
      with Body JObj assms show ?thesis by (simp add: query_absent)
    next
      case (Some v)
      with Body JObj assms show ?thesis
        by (cases v) (simp_all add: query_ollama_def dict_get_def split: if_splits)
    qed
  qed (use Body assms in \<open>simp_all add: query_ollama_def\<close>)
qed (use assms in \<open>simp_all add: query_ollama_def\<close>)

lemma query_well_shaped:
  assumes "well_shaped (post prompt)"
  shows "\<exists>r. query_ollama post prompt = Inr r"
proof (cases "post prompt")
  case (Body result)
  show ?thesis
  proof (cases result)
    case (JObj d)
    show ?thesis
    proof (cases "map_of d ''response''")
      case None
      with Body JObj show ?thesis by (simp add: query_absent)
    next
      case (Some v)
      with Body JObj assms show ?thesis
        by (cases v) (simp_all add: well_shaped_def query_text)
    qed
  qed (use Body assms in \<open>simp_all add: well_shaped_def\<close>)
qed (simp_all add: query_ollama_def)

text \<open>
  Claim C10, as the code has it. When the decoded body, if there is one, is an object whose
  \<open>response\<close> member is absent or a string, \<open>query_ollama\<close> does not raise: a timeout,
  an HTTP error, another network error and a body that is not JSON give \<open>None\<close>, and so do
  an absent, empty or whitespace-only response text; any other return is the response text
  itself, which is then not whitespace-only.
\<close>

theorem query_ollama_returns:
  assumes "well_shaped (post prompt)"
  shows "(\<exists>r. query_ollama post prompt = Inr r) \<and>
    (post prompt = Timeout \<or> (\<exists>status text. post prompt = HTTPError status text) \<or>
     post prompt = NetworkError \<or> (\<exists>text. post prompt = NotJson text)
       \<longrightarrow> query_ollama post prompt = Inr None) \<and>
    (\<forall>d. post prompt = Body (JObj d) \<and> map_of d ''response'' = None
       \<longrightarrow> query_ollama post prompt = Inr None) \<and>
    (\<forall>d text. post prompt = Body (JObj d) \<and> map_of d ''response'' = Some (JStr text)
       \<longrightarrow> query_ollama post prompt = Inr (if strip text = [] then None else Some text)) \<and>
    (\<forall>text. query_ollama post prompt = Inr (Some text)
       \<longrightarrow> strip text \<noteq> [] \<and>
           (\<exists>d. post prompt = Body (JObj d) \<and> map_of d ''response'' = Some (JStr text)))"
  using assms query_well_shaped [of post prompt] query_failure [of post prompt]
    query_absent [of post prompt]
    query_text [of post prompt] query_some [of post prompt]
  by blast

theorem query_ollama_returns_witness:
  "well_shaped (Body (JObj [(''response'', JStr '' pong '')])) \<and>
   query_ollama (\<lambda>prompt. Body (JObj [(''response'', JStr '' pong '')])) ''ping'' = Inr (Some '' pong '') \<and>
   strip '' pong '' \<noteq> []"
proof -
  have w: "well_shaped ((\<lambda>prompt. Body (JObj [(''response'', JStr '' pong '')])) ''ping'')"
    by code_simp
  have v: "query_ollama (\<lambda>prompt. Body (JObj [(''response'', JStr '' pong '')])) ''ping''
      = Inr (Some '' pong '')" by code_simp
  from query_ollama_returns [of "\<lambda>prompt. Body (JObj [(''response'', JStr '' pong '')])" "''ping''"] w v
  show ?thesis by simp
qed

text \<open>
  Without that condition the helper can raise: a body whose \<open>response\<close> member is
  \<open>null\<close>, or a body that is an array, ends in \<open>AttributeError\<close>, which no \<open>except\<close>
  clause catches.
\<close>

theorem query_ollama_raises_counterexample:
  "query_ollama (\<lambda>prompt. Body (JObj [(''response'', JNull)])) ''hello'' = Inl AttributeError \<and>
   query_ollama (\<lambda>prompt. Body (JArr [])) ''hello'' = Inl AttributeError"
  by code_simp

















section \<open>Properties of the validation\<close>

lemma filter_unseen:
  "filter (\<lambda>m. identifier_of m \<noteq> i) (filter (\<lambda>m. P m \<and> identifier_of m \<notin> seen) ls)
     = filter (\<lambda>m. P m \<and> identifier_of m \<notin> insert i seen) ls"
  by (induction ls) auto

lemma pom_skip:
  "\<not> (usable_any l \<and> identifier_of l \<notin> seen) \<Longrightarrow>
   clean_locators_pom (Dict l # es) seen acc = clean_locators_pom es seen acc"
  by (auto simp: usable_any_def identifier_of_def Let_def)

lemma pom_take:
  "usable_any l \<Longrightarrow> identifier_of l \<notin> seen \<Longrightarrow>
   clean_locators_pom (Dict l # es) seen acc
     = clean_locators_pom es (insert (identifier_of l) seen) (acc @ [l])"
  by (auto simp: usable_any_def identifier_of_def Let_def)

lemma extract_skip:
  "\<not> (usable_both l \<and> identifier_of l \<notin> seen) \<Longrightarrow>
   clean_locators (Dict l # es) seen acc = clean_locators es seen acc"
  by (auto simp: usable_both_def identifier_of_def Let_def)

lemma extract_take:
  "usable_both l \<Longrightarrow> identifier_of l \<notin> seen \<Longrightarrow>
   clean_locators (Dict l # es) seen acc
     = clean_locators es (insert (identifier_of l) seen) (acc @ [l])"
  by (auto simp: usable_both_def identifier_of_def Let_def)

lemma first_seen_take:
  assumes "P l" "identifier_of l \<notin> seen"
  shows "(acc @ [l]) @ first_seen (filter (\<lambda>m. P m \<and> identifier_of m \<notin> insert (identifier_of l) seen) ls)
       = acc @ first_seen (filter (\<lambda>m. P m \<and> identifier_of m \<notin> seen) (l # ls))"
proof -
  from assms have "filter (\<lambda>m. P m \<and> identifier_of m \<notin> seen) (l # ls)
      = l # filter (\<lambda>m. P m \<and> identifier_of m \<notin> seen) ls" by simp
  then show ?thesis by (simp only: first_seen.simps filter_unseen append_assoc append_Cons append_Nil)
qed

lemma first_seen_skip:
  assumes "\<not> (P l \<and> identifier_of l \<notin> seen)"
  shows "filter (\<lambda>m. P m \<and> identifier_of m \<notin> seen) (l # ls)
       = filter (\<lambda>m. P m \<and> identifier_of m \<notin> seen) ls"
  using assms by auto

lemma clean_locators_pom_first_seen:
  "clean_locators_pom es seen acc
     = acc @ first_seen (filter (\<lambda>m. usable_any m \<and> identifier_of m \<notin> seen) (dicts es))"
proof (induction es arbitrary: seen acc)
  case Nil
  then show ?case by simp
next
  case (Cons e es)
  show ?case
  proof (cases e)
    case NotDict
    with Cons show ?thesis by simp
  next
    case (Dict l)
    show ?thesis
    proof (cases "usable_any l \<and> identifier_of l \<notin> seen")
      case True
      then have "clean_locators_pom (Dict l # es) seen acc
          = clean_locators_pom es (insert (identifier_of l) seen) (acc @ [l])"
        by (intro pom_take) simp_all
      also have "\<dots> = (acc @ [l]) @ first_seen
          (filter (\<lambda>m. usable_any m \<and> identifier_of m \<notin> insert (identifier_of l) seen) (dicts es))"
        by (rule Cons.IH)
      also have "\<dots> = acc @ first_seen (filter (\<lambda>m. usable_any m \<and> identifier_of m \<notin> seen) (l # dicts es))"
        using True by (intro first_seen_take) simp_all
      finally show ?thesis using Dict by simp
    next
      case False
      then have "clean_locators_pom (Dict l # es) seen acc = clean_locators_pom es seen acc"
        by (rule pom_skip)
      also have "\<dots> = acc @ first_seen (filter (\<lambda>m. usable_any m \<and> identifier_of m \<notin> seen) (dicts es))"
        by (rule Cons.IH)
      finally show ?thesis
        using Dict False first_seen_skip [of usable_any l seen "dicts es"] by simp
    qed
  qed
qed

lemma clean_locators_first_seen:
  "list_all is_dict es \<Longrightarrow>
   clean_locators es seen acc
     = Inr (acc @ first_seen (filter (\<lambda>m. usable_both m \<and> identifier_of m \<notin> seen) (dicts es)))"
proof (induction es arbitrary: seen acc)
  case Nil
  then show ?case by simp
next
  case (Cons e es)
  from Cons.prems obtain l where Dict: "e = Dict l" and all: "list_all is_dict es"
    by (cases e) simp_all
  show ?case
  proof (cases "usable_both l \<and> identifier_of l \<notin> seen")
    case True
    then have "clean_locators (Dict l # es) seen acc
        = clean_locators es (insert (identifier_of l) seen) (acc @ [l])"
      by (intro extract_take) simp_all
    also have "\<dots> = Inr ((acc @ [l]) @ first_seen
        (filter (\<lambda>m. usable_both m \<and> identifier_of m \<notin> insert (identifier_of l) seen) (dicts es)))"
      using all by (rule Cons.IH)
    also have "(acc @ [l]) @ first_seen
        (filter (\<lambda>m. usable_both m \<and> identifier_of m \<notin> insert (identifier_of l) seen) (dicts es))
        = acc @ first_seen (filter (\<lambda>m. usable_both m \<and> identifier_of m \<notin> seen) (l # dicts es))"
      using True by (intro first_seen_take) simp_all
    finally show ?thesis using Dict by simp
  next
    case False
    then have "clean_locators (Dict l # es) seen acc = clean_locators es seen acc"
      by (rule extract_skip)
    also have "\<dots> = Inr (acc @ first_seen (filter (\<lambda>m. usable_both m \<and> identifier_of m \<notin> seen) (dicts es)))"
      using all by (rule Cons.IH)
    finally show ?thesis
      using Dict False first_seen_skip [of usable_both l seen "dicts es"] by simp
  qed
qed

lemma set_first_seen: "set (first_seen ls) \<subseteq> set ls"
  by (induction ls rule: first_seen.induct) auto

lemma distinct_first_seen: "distinct (map identifier_of (first_seen ls))"
proof (induction ls rule: first_seen.induct)
  case 1
  then show ?case by simp
next
  case (2 l ls)
  have "identifier_of l \<notin> identifier_of ` set (first_seen (filter (\<lambda>m. identifier_of m \<noteq> identifier_of l) ls))"
    using set_first_seen [of "filter (\<lambda>m. identifier_of m \<noteq> identifier_of l) ls"] by auto
  with 2 show ?case by simp
qed

lemma first_seen_keeps:
  "\<forall>m \<in> set xs. identifier_of m \<noteq> identifier_of l \<Longrightarrow> l \<in> set (first_seen (xs @ l # ys))"
proof (induction "length xs" arbitrary: xs ys rule: less_induct)
  case less
  show ?case
  proof (cases xs)
    case Nil
    then show ?thesis by simp
  next
    case (Cons x xs')
    let ?P = "\<lambda>m. identifier_of m \<noteq> identifier_of x"
    from less.prems Cons have keep: "?P l" by auto
    have len: "length (filter ?P xs') < length xs" using Cons by (simp add: le_imp_less_Suc)
    from less.prems Cons have "\<forall>m \<in> set (filter ?P xs'). identifier_of m \<noteq> identifier_of l" by simp
    from less.hyps [OF len this, of "filter ?P ys"] keep Cons show ?thesis by simp
  qed
qed

lemma dicts_append: "dicts (xs @ ys) = dicts xs @ dicts ys"
  by (induction xs rule: dicts.induct) simp_all


lemma clean_locators_not_dict:
  "\<not> list_all is_dict es \<Longrightarrow> clean_locators es seen acc = Inl AttributeError"
proof (induction es arbitrary: seen acc)
  case Nil
  then show ?case by simp
next
  case (Cons e es)
  show ?case
  proof (cases e)
    case NotDict
    then show ?thesis by simp
  next
    case (Dict l)
    with Cons.prems have "\<not> list_all is_dict es" by simp
    then have "\<And>seen acc. clean_locators es seen acc = Inl AttributeError" by (rule Cons.IH)
    then show ?thesis using Dict by (simp add: Let_def)
  qed
qed

text \<open>
  Claim C5, as the code has it. Both validation loops keep, for every identifier, the
  first entry that passes the locator check, in input order, so the identifiers of the
  accepted records are pairwise distinct: \<open>generate_pom\<close> returns the first-seen records
  among those with an identifier and an xpath or a css selector, \<open>extract_locators\<close> the
  first-seen records among those with an identifier, an xpath and a css selector (and
  raises on an entry that is no object).
\<close>

theorem first_usable_wins:
  "generate_pom_clean es = first_seen (filter usable_any (dicts es)) \<and>
   distinct (map identifier_of (generate_pom_clean es)) \<and>
   (list_all is_dict es \<longrightarrow>
      extract_locators_clean es = Inr (first_seen (filter usable_both (dicts es)))) \<and>
   (\<not> list_all is_dict es \<longrightarrow> extract_locators_clean es = Inl AttributeError) \<and>
   (\<forall>out. extract_locators_clean es = Inr out \<longrightarrow> distinct (map identifier_of out))"
proof -
  have pom: "generate_pom_clean es = first_seen (filter usable_any (dicts es))"
    using clean_locators_pom_first_seen [of es "{}" "[]"] by (simp add: generate_pom_clean_def)
  have ext: "list_all is_dict es \<Longrightarrow>
      extract_locators_clean es = Inr (first_seen (filter usable_both (dicts es)))"
    using clean_locators_first_seen [of es "{}" "[]"] by (simp add: extract_locators_clean_def)
  have bad: "\<not> list_all is_dict es \<Longrightarrow> extract_locators_clean es = Inl AttributeError"
    by (simp add: extract_locators_clean_def clean_locators_not_dict)
  have "distinct (map identifier_of out)" if "extract_locators_clean es = Inr out" for out
  proof (cases "list_all is_dict es")
    case True
    with ext that have "out = first_seen (filter usable_both (dicts es))" by simp
    then show ?thesis by (simp add: distinct_first_seen)
  next
    case False
    with bad that show ?thesis by simp
  qed
  with pom ext bad show ?thesis by (simp add: distinct_first_seen)
qed

theorem first_usable_wins_witness:
  "generate_pom_clean
     [Dict [(''identifier'', ''x''), (''xpath'', ''//a'')], Dict [(''identifier'', ''x''), (''xpath'', ''//b'')]]
     = [[(''identifier'', ''x''), (''xpath'', ''//a'')]] \<and>
   extract_locators_clean
     [Dict [(''identifier'', ''x''), (''xpath'', ''//a''), (''css_selector'', ''a'')],
      Dict [(''identifier'', ''x''), (''xpath'', ''//b''), (''css_selector'', ''b'')]]
     = Inr [[(''identifier'', ''x''), (''xpath'', ''//a''), (''css_selector'', ''a'')]] \<and>
   distinct (map identifier_of (generate_pom_clean
     [Dict [(''identifier'', ''x''), (''xpath'', ''//a'')], Dict [(''identifier'', ''x''), (''xpath'', ''//b'')]]))"
proof -
  have p: "generate_pom_clean
     [Dict [(''identifier'', ''x''), (''xpath'', ''//a'')], Dict [(''identifier'', ''x''), (''xpath'', ''//b'')]]
     = [[(''identifier'', ''x''), (''xpath'', ''//a'')]]" by code_simp
  have e: "extract_locators_clean
     [Dict [(''identifier'', ''x''), (''xpath'', ''//a''), (''css_selector'', ''a'')],
      Dict [(''identifier'', ''x''), (''xpath'', ''//b''), (''css_selector'', ''b'')]]
     = Inr [[(''identifier'', ''x''), (''xpath'', ''//a''), (''css_selector'', ''a'')]]" by code_simp
  from first_usable_wins [of
      "[Dict [(''identifier'', ''x''), (''xpath'', ''//a'')], Dict [(''identifier'', ''x''), (''xpath'', ''//b'')]]"]
  have d: "distinct (map identifier_of (generate_pom_clean
     [Dict [(''identifier'', ''x''), (''xpath'', ''//a'')], Dict [(''identifier'', ''x''), (''xpath'', ''//b'')]]))"
    by blast
  from p e d show ?thesis by (intro conjI)
qed

text \<open>
  The claim as written fails twice in \<open>extract_locators\<close>: its own example has no css
  selectors, so both entries are dropped and the output is empty; and when the first
  entry of an identifier fails the locator check, a later entry with that identifier is
  accepted.
\<close>

theorem first_occurrence_counterexample:
  "extract_locators_clean
     [Dict [(''identifier'', ''x''), (''xpath'', ''//a'')], Dict [(''identifier'', ''x''), (''xpath'', ''//b'')]]
     = Inr [] \<and>
   extract_locators_clean
     [Dict [(''identifier'', ''x''), (''xpath'', []), (''css_selector'', [])],
      Dict [(''identifier'', ''x''), (''xpath'', ''//b''), (''css_selector'', ''b'')]]
     = Inr [[(''identifier'', ''x''), (''xpath'', ''//b''), (''css_selector'', ''b'')]]"
  by code_simp

text \<open>
  Claim C1, as the code has it. An identifier is in the seen set when an earlier entry
  with it was accepted, that is, when an earlier entry with it passes the loop's locator
  check. An entry with a non-empty identifier that is not in the seen set is accepted by
  \<open>generate_pom\<close> exactly when its xpath or its css selector is not empty, and by
  \<open>extract_locators\<close> exactly when both are not empty.
\<close>

theorem locator_check:
  assumes "identifier_of l \<noteq> []"
  shows "((\<forall>m \<in> set (dicts pre). usable_any m \<longrightarrow> identifier_of m \<noteq> identifier_of l) \<longrightarrow>
            (l \<in> set (generate_pom_clean (pre @ Dict l # post)) \<longleftrightarrow>
               get_text l ''xpath'' \<noteq> [] \<or> get_text l ''css_selector'' \<noteq> [])) \<and>
         ((\<forall>m \<in> set (dicts pre). usable_both m \<longrightarrow> identifier_of m \<noteq> identifier_of l) \<and>
          list_all is_dict (pre @ post) \<longrightarrow>
            (\<exists>out. extract_locators_clean (pre @ Dict l # post) = Inr out \<and>
               (l \<in> set out \<longleftrightarrow>
                  get_text l ''xpath'' \<noteq> [] \<and> get_text l ''css_selector'' \<noteq> [])))"
proof -
  have mem: "l \<in> set (first_seen (filter P (dicts (pre @ Dict l # post)))) \<longleftrightarrow> P l"
    if unseen: "\<forall>m \<in> set (dicts pre). P m \<longrightarrow> identifier_of m \<noteq> identifier_of l" for P
  proof
    assume "l \<in> set (first_seen (filter P (dicts (pre @ Dict l # post))))"
    with set_first_seen [of "filter P (dicts (pre @ Dict l # post))"] show "P l" by auto
  next
    assume "P l"
    then have "filter P (dicts (pre @ Dict l # post))
        = filter P (dicts pre) @ l # filter P (dicts post)" by (simp add: dicts_append)
    moreover from unseen have "\<forall>m \<in> set (filter P (dicts pre)). identifier_of m \<noteq> identifier_of l"
      by simp
    ultimately show "l \<in> set (first_seen (filter P (dicts (pre @ Dict l # post))))"
      by (simp add: first_seen_keeps)
  qed
  have pom: "generate_pom_clean (pre @ Dict l # post)
      = first_seen (filter usable_any (dicts (pre @ Dict l # post)))"
    using clean_locators_pom_first_seen [of "pre @ Dict l # post" "{}" "[]"]
    by (simp add: generate_pom_clean_def)
  have ext: "list_all is_dict (pre @ post) \<Longrightarrow> extract_locators_clean (pre @ Dict l # post)
      = Inr (first_seen (filter usable_both (dicts (pre @ Dict l # post))))"
    using clean_locators_first_seen [of "pre @ Dict l # post" "{}" "[]"]
    by (simp add: extract_locators_clean_def)
  from assms have any: "usable_any l \<longleftrightarrow> get_text l ''xpath'' \<noteq> [] \<or> get_text l ''css_selector'' \<noteq> []"
    and both: "usable_both l \<longleftrightarrow> get_text l ''xpath'' \<noteq> [] \<and> get_text l ''css_selector'' \<noteq> []"
    by (simp_all add: usable_any_def usable_both_def)
  have 1: "(\<forall>m \<in> set (dicts pre). usable_any m \<longrightarrow> identifier_of m \<noteq> identifier_of l) \<longrightarrow>
      (l \<in> set (generate_pom_clean (pre @ Dict l # post)) \<longleftrightarrow>
         get_text l ''xpath'' \<noteq> [] \<or> get_text l ''css_selector'' \<noteq> [])"
    using mem [of usable_any] any unfolding pom by blast
  have 2: "(\<forall>m \<in> set (dicts pre). usable_both m \<longrightarrow> identifier_of m \<noteq> identifier_of l) \<and>
      list_all is_dict (pre @ post) \<longrightarrow>
      (\<exists>out. extract_locators_clean (pre @ Dict l # post) = Inr out \<and>
         (l \<in> set out \<longleftrightarrow>
            get_text l ''xpath'' \<noteq> [] \<and> get_text l ''css_selector'' \<noteq> []))"
  proof
    assume h: "(\<forall>m \<in> set (dicts pre). usable_both m \<longrightarrow> identifier_of m \<noteq> identifier_of l) \<and>
      list_all is_dict (pre @ post)"
    then have e: "extract_locators_clean (pre @ Dict l # post)
        = Inr (first_seen (filter usable_both (dicts (pre @ Dict l # post))))" by (intro ext) simp
    from h have "l \<in> set (first_seen (filter usable_both (dicts (pre @ Dict l # post))))
        \<longleftrightarrow> usable_both l" by (intro mem) simp
    with both e show "\<exists>out. extract_locators_clean (pre @ Dict l # post) = Inr out \<and>
         (l \<in> set out \<longleftrightarrow>
            get_text l ''xpath'' \<noteq> [] \<and> get_text l ''css_selector'' \<noteq> [])" by simp
  qed
  from 1 2 show ?thesis by (rule conjI)
qed

theorem locator_check_witness:
  "identifier_of [(''identifier'', ''y''), (''xpath'', ''//a''), (''css_selector'', [])] \<noteq> [] \<and>
   [(''identifier'', ''y''), (''xpath'', ''//a''), (''css_selector'', [])]
     \<in> set (generate_pom_clean
         [Dict [(''identifier'', ''y'')],
          Dict [(''identifier'', ''y''), (''xpath'', ''//a''), (''css_selector'', [])]]) \<and>
   extract_locators_clean
     [Dict [(''identifier'', ''y'')],
      Dict [(''identifier'', ''y''), (''xpath'', ''//a''), (''css_selector'', [])]] = Inr []"
proof -
  let ?u = "[(''identifier'', ''y'')]"
  let ?l = "[(''identifier'', ''y''), (''xpath'', ''//a''), (''css_selector'', [])]"
  have i: "identifier_of ?l \<noteq> []" by code_simp
  have x: "get_text ?l ''xpath'' \<noteq> []" by code_simp
  have e: "extract_locators_clean [Dict ?u, Dict ?l] = Inr []" by code_simp
  have "\<not> usable_any ?u" by code_simp
  then have n: "\<forall>m \<in> set (dicts [Dict ?u]). usable_any m \<longrightarrow> identifier_of m \<noteq> identifier_of ?l"
    by simp
  from locator_check [OF i, of "[Dict ?u]" "[]"] n x
  have "?l \<in> set (generate_pom_clean ([Dict ?u] @ Dict ?l # []))" by blast
  then have m: "?l \<in> set (generate_pom_clean [Dict ?u, Dict ?l])"
    by (simp only: append_Cons append_Nil)
  from i m e show ?thesis by (intro conjI)
qed

text \<open>
  The claim as written fails in \<open>extract_locators\<close>: an entry with an xpath and an empty
  css selector is dropped.
\<close>

theorem locator_check_counterexample:
  "extract_locators_clean [Dict [(''identifier'', ''y''), (''xpath'', ''//a''), (''css_selector'', [])]]
     = Inr []"
  by code_simp

end
